theory Spec2Isabelle
  imports Main
begin

section \<open>The polling script \<^verbatim>\<open>static/js/check_indexing.js\<close>\<close>

text \<open>
  The script declares the constant \<^verbatim>\<open>checkInterval\<close> and the function
  \<^verbatim>\<open>checkIndexing\<close>, which sends \<^verbatim>\<open>GET /indexing\<close> and installs a
  response handler. The handler reads the element with id \<^verbatim>\<open>flash\<close>, branches on
  the response text and then runs \<^verbatim>\<open>setTimeout(checkIndexing, interval)\<close>.

  The browser is modelled by a page:
  \<^item> \<open>elements\<close>: the class list of every element that exists, by id;
  \<^item> \<open>lexical\<close>: the bindings that the classic scripts loaded so far have declared at
    top level with \<^verbatim>\<open>let\<close>, \<^verbatim>\<open>const\<close> or \<^verbatim>\<open>class\<close>; all classic scripts of a
    page share them, and they are not properties of the global object;
  \<^item> \<open>window\<close>: the properties of the global object, its own and those it inherits,
    however they came about (a top-level \<^verbatim>\<open>var\<close> or \<^verbatim>\<open>function\<close>, an assignment,
    a frame or an element reachable under its \<^verbatim>\<open>name\<close>), except the elements
    reachable under their ids, which \<open>elements\<close> gives;
  \<^item> \<open>reserved\<close>: the names a top-level \<^verbatim>\<open>let\<close> or \<^verbatim>\<open>const\<close> may not take:
    those declared at top level with \<^verbatim>\<open>var\<close> or \<^verbatim>\<open>function\<close>, and those of the
    global object's properties that cannot be reconfigured;
  \<^item> \<open>readonly\<close>: the names of the global object's properties that can be neither
    reconfigured nor written, which no function declaration may take;
  \<^item> \<open>trace\<close>: the host calls made so far, oldest first.

  The host's own globals (\<^verbatim>\<open>document\<close>, \<^verbatim>\<open>alert\<close>, \<^verbatim>\<open>setTimeout\<close>,
  \<^verbatim>\<open>XMLHttpRequest\<close>) are taken to be the browser's. A statement ends normally, with
  a \<^verbatim>\<open>return\<close>, or by throwing; what it did to the page before a throw stays done.
\<close>

datatype js_value =
    Undefined | Null | Num int | Str string | Fun string | Elem string | XhrObject

datatype js_error = ReferenceError string | TypeError string | SyntaxError string

datatype completion = Normal | Return | Throw js_error

datatype host_call =
    GetElementById string
  | ClassListRemove string string
  | ClassListContains string string
  | ClassListAdd string string
  | Alert string
  | SetTimeout js_value js_value
  | XhrOpen string string bool
  | XhrSend

record page =
  elements :: "string \<rightharpoonup> string list"
  lexical :: "string \<rightharpoonup> js_value"
  window :: "string \<rightharpoonup> js_value"
  reserved :: "string list"
  readonly :: "string list"
  trace :: "host_call list"

definition record_call :: "host_call \<Rightarrow> page \<Rightarrow> page" where
  "record_call c p = p\<lparr>trace := trace p @ [c]\<rparr>"

subsection \<open>Identifier resolution\<close>

text \<open>
  \<^verbatim>\<open>const checkInterval = 1000;\<close> is the script's first line. An identifier is
  looked up innermost scope first; one that no scope binds throws a ReferenceError.
\<close>

definition checkInterval :: int where
  "checkInterval = 1000"

fun resolve :: "(string \<rightharpoonup> js_value) list \<Rightarrow> string \<Rightarrow> js_error + js_value" where
  "resolve [] x = Inl (ReferenceError x)"
| "resolve (s # ss) x = (case s x of Some v \<Rightarrow> Inr v | None \<Rightarrow> resolve ss x)"

text \<open>
  The global object: its own properties first, then the elements of the document,
  which a browser makes reachable under their ids.
\<close>

definition global_object :: "page \<Rightarrow> string \<rightharpoonup> js_value" where
  "global_object p x =
     (case window p x of
        Some v \<Rightarrow> Some v
      | None \<Rightarrow> (case elements p x of None \<Rightarrow> None | Some cl \<Rightarrow> Some (Elem x)))"

text \<open>
  The scopes visible inside the handler: its own local \<^verbatim>\<open>flash\<close>, the local
  \<^verbatim>\<open>xhttp\<close> of the enclosing \<^verbatim>\<open>checkIndexing\<close>, the top-level lexical bindings
  of the page's classic scripts (this script's \<^verbatim>\<open>checkInterval\<close> is one of them once
  the script has loaded), and the global object (where this script's function
  \<^verbatim>\<open>checkIndexing\<close> is a property once the script has loaded).
\<close>

definition handler_scopes :: "js_value \<Rightarrow> page \<Rightarrow> (string \<rightharpoonup> js_value) list" where
  "handler_scopes flash p =
     [[''flash'' \<mapsto> flash], [''xhttp'' \<mapsto> XhrObject], lexical p, global_object p]"

text \<open>What an identifier that is not a local variable is bound to on a page, if anything.\<close>

definition global_binding :: "page \<Rightarrow> string \<rightharpoonup> js_value" where
  "global_binding p x = (case lexical p x of Some v \<Rightarrow> Some v | None \<Rightarrow> global_object p x)"

subsection \<open>Host operations\<close>

text \<open>
  \<^verbatim>\<open>document.getElementById\<close> returns the element or \<^verbatim>\<open>null\<close>. Reading
  \<^verbatim>\<open>classList\<close> of \<^verbatim>\<open>null\<close> throws a TypeError. A class list is a
  DOMTokenList: \<^verbatim>\<open>remove\<close> deletes the token, \<^verbatim>\<open>add\<close> appends it unless it is
  already there, \<^verbatim>\<open>contains\<close> tests membership.
\<close>

definition getElementById :: "string \<Rightarrow> page \<Rightarrow> js_value \<times> page" where
  "getElementById i p =
     ((case elements p i of None \<Rightarrow> Null | Some cl \<Rightarrow> Elem i),
      record_call (GetElementById i) p)"

fun classList :: "js_value \<Rightarrow> page \<Rightarrow> js_error + (string \<times> string list)" where
  "classList (Elem i) p =
     (case elements p i of
        None \<Rightarrow> Inl (TypeError ''classList'')
      | Some cl \<Rightarrow> Inr (i, cl))"
| "classList v p = Inl (TypeError ''classList'')"

definition add_token :: "string \<Rightarrow> string list \<Rightarrow> string list" where
  "add_token t cl = (if t \<in> set cl then cl else cl @ [t])"

definition classList_remove :: "js_value \<Rightarrow> string \<Rightarrow> page \<Rightarrow> completion \<times> page" where
  "classList_remove ref t p =
     (case classList ref p of
        Inl e \<Rightarrow> (Throw e, p)
      | Inr (i, cl) \<Rightarrow>
          (Normal,
           record_call (ClassListRemove i t) (p\<lparr>elements := (elements p)(i \<mapsto> removeAll t cl)\<rparr>)))"

definition classList_contains :: "js_value \<Rightarrow> string \<Rightarrow> page \<Rightarrow> (js_error + bool) \<times> page" where
  "classList_contains ref t p =
     (case classList ref p of
        Inl e \<Rightarrow> (Inl e, p)
      | Inr (i, cl) \<Rightarrow> (Inr (t \<in> set cl), record_call (ClassListContains i t) p))"

definition classList_add :: "js_value \<Rightarrow> string \<Rightarrow> page \<Rightarrow> completion \<times> page" where
  "classList_add ref t p =
     (case classList ref p of
        Inl e \<Rightarrow> (Throw e, p)
      | Inr (i, cl) \<Rightarrow>
          (Normal,
           record_call (ClassListAdd i t) (p\<lparr>elements := (elements p)(i \<mapsto> add_token t cl)\<rparr>)))"

definition alert :: "string \<Rightarrow> page \<Rightarrow> completion \<times> page" where
  "alert msg p = (Normal, record_call (Alert msg) p)"

text \<open>
  \<^verbatim>\<open>setTimeout(f, d)\<close> with both arguments given as identifiers: the arguments
  are evaluated left to right, and the call happens only when both resolve.
\<close>

definition setTimeout :: "(string \<rightharpoonup> js_value) list \<Rightarrow> string \<Rightarrow> string \<Rightarrow> page \<Rightarrow> completion \<times> page" where
  "setTimeout scopes f d p =
     (case resolve scopes f of
        Inl e \<Rightarrow> (Throw e, p)
      | Inr fv \<Rightarrow>
          (case resolve scopes d of
             Inl e \<Rightarrow> (Throw e, p)
           | Inr dv \<Rightarrow> (Normal, record_call (SetTimeout fv dv) p)))"

subsection \<open>The response handler and the script\<close>

text \<open>Statement sequencing: the next statement runs only after a normal completion.\<close>

definition and_then :: "completion \<times> page \<Rightarrow> (page \<Rightarrow> completion \<times> page) \<Rightarrow> completion \<times> page" where
  "and_then r k = (case r of (Normal, p) \<Rightarrow> k p | (c, p) \<Rightarrow> (c, p))"

text \<open>
  \<^verbatim>\<open>
  xhttp.onload = function() {
      const flash = document.getElementById("flash");
      if (this.responseText === "YES") {
          flash.classList.remove("hidden");
          return;
      } else if (this.responseText === "NO") {
          if (flash.classList.contains("hidden")) {
              flash.classList.add("hidden");
          }
      } else {
          alert("There was an error trying to resume");
      }
      // keep checking until indexing has finished
      setTimeout(checkIndexing, interval);
  };
  \<close>
\<close>

definition onload :: "string \<Rightarrow> page \<Rightarrow> completion \<times> page" where
  "onload responseText p =
     (let (flash, p1) = getElementById ''flash'' p in
      and_then
        (if responseText = ''YES'' then
           and_then (classList_remove flash ''hidden'' p1) (\<lambda>p2. (Return, p2))
         else if responseText = ''NO'' then
           (case classList_contains flash ''hidden'' p1 of
              (Inl e, p2) \<Rightarrow> (Throw e, p2)
            | (Inr True, p2) \<Rightarrow> classList_add flash ''hidden'' p2
            | (Inr False, p2) \<Rightarrow> (Normal, p2))
         else
           alert ''There was an error trying to resume'' p1)
        (\<lambda>p3. setTimeout (handler_scopes flash p3) ''checkIndexing'' ''interval'' p3))"

text \<open>
  \<^verbatim>\<open>checkIndexing\<close> opens and sends the asynchronous request; the handler above
  runs later, when the response arrives.
\<close>

definition checkIndexing :: "page \<Rightarrow> completion \<times> page" where
  "checkIndexing p =
     (Normal, record_call XhrSend (record_call (XhrOpen ''GET'' ''/indexing'' True) p))"

text \<open>
  Loading the script as a classic script. Its top-level declarations are
  \<^verbatim>\<open>const checkInterval\<close> and \<^verbatim>\<open>function checkIndexing\<close>. Before any statement
  runs the declarations are checked against the page: the constant's name must be
  neither reserved nor lexically bound already, and the function's name must not be
  lexically bound (a SyntaxError otherwise); the function's name must not be that of a
  read-only property of the global object (a TypeError otherwise). A script that fails
  a check leaves the page as it was. Otherwise the function becomes a property of the
  global object, replacing what was there under that name, and the constant a lexical
  binding with the value 1000. The script's last line,
  \<^verbatim>\<open>//setTimeout(checkIndexing, checkInterval);\<close>, is a comment: loading makes no
  host call.
\<close>

definition load_script :: "page \<Rightarrow> completion \<times> page" where
  "load_script p =
     (if ''checkInterval'' \<in> set (reserved p) \<or> lexical p ''checkInterval'' \<noteq> None
      then (Throw (SyntaxError ''checkInterval''), p)
      else if lexical p ''checkIndexing'' \<noteq> None
      then (Throw (SyntaxError ''checkIndexing''), p)
      else if ''checkIndexing'' \<in> set (readonly p)
      then (Throw (TypeError ''checkIndexing''), p)
      else
        (Normal,
         p\<lparr>lexical := (lexical p)(''checkInterval'' \<mapsto> Num checkInterval),
           window := (window p)(''checkIndexing'' \<mapsto> Fun ''checkIndexing''),
           reserved := ''checkIndexing'' # reserved p\<rparr>))"

text \<open>The host calls one run of the handler adds to the trace.\<close>

definition handler_calls :: "string \<Rightarrow> page \<Rightarrow> host_call list" where
  "handler_calls responseText p = drop (length (trace p)) (trace (snd (onload responseText p)))"

text \<open>The class list of an element, empty when there is no such element.\<close>

definition classes :: "page \<Rightarrow> string \<Rightarrow> string list" where
  "classes p i = (case elements p i of None \<Rightarrow> [] | Some cl \<Rightarrow> cl)"

text \<open>
  A document whose flash element is hidden, before any script has loaded; and the same
  document with this script loaded and no other.
\<close>

definition blank_page :: page where
  "blank_page =
     \<lparr>elements = [''flash'' \<mapsto> [''notice'', ''hidden'']], lexical = Map.empty,
      window = Map.empty, reserved = [], readonly = [], trace = []\<rparr>"

definition hidden_page :: page where
  "hidden_page =
     \<lparr>elements = [''flash'' \<mapsto> [''notice'', ''hidden'']],
      lexical = [''checkInterval'' \<mapsto> Num checkInterval],
      window = [''checkIndexing'' \<mapsto> Fun ''checkIndexing''],
      reserved = [''checkIndexing''], readonly = [], trace = []\<rparr>"

text \<open>The page with this script loaded and no other, the flash element showing.\<close>

definition visible_page :: page where
  "visible_page = hidden_page\<lparr>elements := [''flash'' \<mapsto> [''notice'']]\<rparr>"

text \<open>
  Pages where another classic script has run besides this one: one that assigned
  \<^verbatim>\<open>window.interval = 500\<close>, and one whose top level declares
  \<^verbatim>\<open>let interval = 250\<close>.
\<close>

definition assigned_interval_page :: page where
  "assigned_interval_page = hidden_page\<lparr>window := (window hidden_page)(''interval'' \<mapsto> Num 500)\<rparr>"

definition declared_interval_page :: page where
  "declared_interval_page = hidden_page\<lparr>lexical := (lexical hidden_page)(''interval'' \<mapsto> Num 250)\<rparr>"


section \<open>The table and index-engine contract\<close>

text \<open>
  The sources hold the polling script and the README only; the engine that the
  specification describes (index engine, indexing coordinator, storage accessor,
  table) is not among them. The definitions of this section are written from the
  specification's sections 3 to 8, and each says so.
\<close>

subsection \<open>Rows, flags and configuration\<close>

text \<open>Modelled from the spec: the RowFlag values of section 3 (the engine's row
  classification is not in the sources).\<close>

datatype row_flag = Include | Exclude | Skip

text \<open>Modelled from the spec: the IndexingState values of section 3 (the coordinator
  is not in the sources).\<close>

datatype indexing_state = Idle | Building | Ready | Failed

text \<open>Modelled from the spec: the error taxonomy of section 7 (the engine's error
  type is not in the sources).\<close>

datatype error_kind = NotReady | BuildInProgress | Cancelled | SourceUnreadable

text \<open>Modelled from the spec: a physical row of the dataset file, as its bytes (section
  3, Row); the storage layer is not in the sources.\<close>

type_synonym raw_row = string

text \<open>Modelled from the spec: an IndexEntry (section 3), a lookup key with the row
  offset it maps to; the index structure is not in the sources.\<close>

type_synonym index_entry = "string \<times> nat"

text \<open>Modelled from the spec: the build configuration of section 6 (the engine's
  configuration type is not in the sources). The CSV dialect is the parser it induces,
  which answers \<open>None\<close> on a malformed row; the key columns are the key derivation they
  induce, which answers \<open>None\<close> when the key column does not parse under the configured
  type; the flag rule maps the parsed fields to a flag.\<close>

record build_config =
  csv_dialect :: "raw_row \<Rightarrow> string list option"
  key_columns :: "string list \<Rightarrow> string option"
  flag_rule :: "string list \<Rightarrow> row_flag"

text \<open>Modelled from the spec: the dataset handed to a build (section 4.2, Failure): a
  file that cannot be opened, or its physical rows in file order (the storage accessor
  is not in the sources).\<close>

datatype source = Unreadable | Dataset "raw_row list"

text \<open>Modelled from the spec: \<open>stream\<close> of the StorageAccessor (section 4.3), the rows
  with their byte offsets; a row starts where the one before it ends.\<close>

fun stream_from :: "nat \<Rightarrow> raw_row list \<Rightarrow> (nat \<times> raw_row) list" where
  "stream_from off [] = []"
| "stream_from off (r # rs) = (off, r) # stream_from (off + length r) rs"

text \<open>Modelled from the spec: the stream of a whole file starts at offset 0.\<close>

definition stream :: "raw_row list \<Rightarrow> (nat \<times> raw_row) list" where
  "stream rows = stream_from 0 rows"

text \<open>Modelled from the spec: the lookup key of a row (section 4.2, step 4 and the
  encoding paragraph): derived from the parsed fields, absent for a malformed row or a
  key column that does not parse.\<close>

definition key_of :: "build_config \<Rightarrow> raw_row \<Rightarrow> string option" where
  "key_of c raw = (case csv_dialect c raw of None \<Rightarrow> None | Some fs \<Rightarrow> key_columns c fs)"

text \<open>Modelled from the spec: the flag of a row (section 4.2, steps 2 and 3): a
  malformed row and a row whose key column does not parse are \<open>skip\<close>; every other row
  gets the flag rule's answer.\<close>

definition flag_of :: "build_config \<Rightarrow> raw_row \<Rightarrow> row_flag" where
  "flag_of c raw =
     (case csv_dialect c raw of
        None \<Rightarrow> Skip
      | Some fs \<Rightarrow> (case key_columns c fs of None \<Rightarrow> Skip | Some k \<Rightarrow> flag_rule c fs))"

text \<open>Modelled from the spec: section 4.2, step 4: the IndexEntry of a row, for an
  \<open>include\<close> row only: its lookup key and the byte offset of the row's start.\<close>

definition entry_of :: "build_config \<Rightarrow> nat \<times> raw_row \<Rightarrow> index_entry option" where
  "entry_of c r =
     (if flag_of c (snd r) = Include
      then (case key_of c (snd r) of None \<Rightarrow> None | Some k \<Rightarrow> Some (k, fst r))
      else None)"

text \<open>Modelled from the spec: section 4.2, step 4: the entry of an \<open>include\<close> row is
  appended to the index under construction; any other row leaves it as it is.\<close>

definition index_row :: "build_config \<Rightarrow> nat \<times> raw_row \<Rightarrow> index_entry list \<Rightarrow> index_entry list" where
  "index_row c r es = (case entry_of c r of None \<Rightarrow> es | Some e \<Rightarrow> es @ [e])"

subsection \<open>The table and its coordinator\<close>

text \<open>Modelled from the spec: the IndexingCoordinator's state (section 4.4). While a
  build runs it holds the build's configuration, the rows still to be read and the
  index under construction; a failed build keeps its error.\<close>

datatype phase =
    PIdle
  | PBuilding build_config "(nat \<times> raw_row) list" "index_entry list"
  | PReady
  | PFailed error_kind

text \<open>Modelled from the spec: a table (section 3): the coordinator's state and the
  active index, absent until a build has succeeded.\<close>

record table =
  phase :: phase
  active :: "index_entry list option"

text \<open>Modelled from the spec: a table before any build: idle, no active index (section
  3, IndexingState).\<close>

definition new_table :: table where
  "new_table = \<lparr>phase = PIdle, active = None\<rparr>"

text \<open>Modelled from the spec: \<open>status\<close> of section 4.1.\<close>

fun status :: "table \<Rightarrow> indexing_state" where
  "status t =
     (case phase t of
        PIdle \<Rightarrow> Idle
      | PBuilding c rs es \<Rightarrow> Building
      | PReady \<Rightarrow> Ready
      | PFailed e \<Rightarrow> Failed)"

text \<open>Modelled from the spec: a build request (sections 4.1 and 4.4): rejected with
  BuildInProgress while a build runs; failing with SourceUnreadable when the file cannot
  be opened; otherwise the table starts building, from an empty index under
  construction.\<close>

definition request_build :: "source \<Rightarrow> build_config \<Rightarrow> table \<Rightarrow> (error_kind + unit) \<times> table" where
  "request_build src c t =
     (case phase t of
        PBuilding c' rs es \<Rightarrow> (Inl BuildInProgress, t)
      | _ \<Rightarrow>
          (case src of
             Unreadable \<Rightarrow> (Inl SourceUnreadable, t\<lparr>phase := PFailed SourceUnreadable\<rparr>)
           | Dataset rows \<Rightarrow> (Inr (), t\<lparr>phase := PBuilding c (stream rows) []\<rparr>)))"

text \<open>Modelled from the spec: one step of a running build (section 4.2, steps 2 to
  5): the next row is read and indexed; when no row is left the index under
  construction becomes the active one and the table is ready.\<close>

definition build_step :: "table \<Rightarrow> table" where
  "build_step t =
     (case phase t of
        PBuilding c [] es \<Rightarrow> t\<lparr>phase := PReady, active := Some es\<rparr>
      | PBuilding c (r # rs) es \<Rightarrow> t\<lparr>phase := PBuilding c rs (index_row c r es)\<rparr>
      | _ \<Rightarrow> t)"

text \<open>Modelled from the spec: cancellation between rows (section 5): a running build
  ends as failed with Cancelled; the active index stays.\<close>

definition cancel :: "table \<Rightarrow> table" where
  "cancel t =
     (case phase t of
        PBuilding c rs es \<Rightarrow> t\<lparr>phase := PFailed Cancelled\<rparr>
      | _ \<Rightarrow> t)"

text \<open>Modelled from the spec: the steps a running build has still to take: one for each
  row not yet read (a build is bounded by the dataset's size, section 4.1) and one for
  the swap.\<close>

fun remaining :: "table \<Rightarrow> nat" where
  "remaining t = (case phase t of PBuilding c rs es \<Rightarrow> Suc (length rs) | _ \<Rightarrow> 0)"

text \<open>Modelled from the spec: a build run to its end (section 4.2), step by step, until
  the table is no longer building.\<close>

function run_build :: "table \<Rightarrow> table" where
  "run_build t = (if status t = Building then run_build (build_step t) else t)"
  by pat_completeness auto
termination
  by (relation "measure remaining")
     (auto simp: build_step_def split: phase.splits list.splits)

declare run_build.simps [simp del]

text \<open>Modelled from the spec: \<open>build\<close> of section 4.1: the request, then the build run
  to its end.\<close>

definition build :: "source \<Rightarrow> build_config \<Rightarrow> table \<Rightarrow> (error_kind + unit) \<times> table" where
  "build src c t =
     (case request_build src c t of
        (Inl e, t') \<Rightarrow> (Inl e, t')
      | (Inr u, t') \<Rightarrow> (Inr u, run_build t'))"

text \<open>Modelled from the spec: key resolution over the entries in the order they were
  appended (section 4.2, step 6): a later entry with the same key supersedes an earlier
  one.\<close>

fun resolve_key :: "string \<Rightarrow> index_entry list \<Rightarrow> nat option \<Rightarrow> nat option" where
  "resolve_key k [] found = found"
| "resolve_key k (e # es) found = resolve_key k es (if fst e = k then Some (snd e) else found)"

text \<open>Modelled from the spec: \<open>lookup\<close> of section 4.1: NotReady when no index is
  active, else the offset the key resolves to, if any.\<close>

definition lookup :: "string \<Rightarrow> table \<Rightarrow> error_kind + nat option" where
  "lookup k t =
     (case active t of
        None \<Rightarrow> Inl NotReady
      | Some es \<Rightarrow> Inr (resolve_key k es None))"

subsection \<open>Interleaved requests\<close>

text \<open>Modelled from the spec: what can happen to a table, one atomic event at a time:
  a build request, a step of the running build, a cancellation. Requests issued
  concurrently reach the coordinator in some order.\<close>

datatype event = Request source build_config | Step | Cancel

text \<open>Modelled from the spec: what an event did: a build started, a request refused
  with its error, a row indexed, the build completed, the build aborted by a
  cancellation, or nothing (a step or a cancellation with no build running).\<close>

datatype outcome = Started | Refused error_kind | Advanced | Completed | Aborted | NoOp

text \<open>Modelled from the spec: one event applied to a table (section 4.4).\<close>

definition exec :: "event \<Rightarrow> table \<Rightarrow> outcome \<times> table" where
  "exec ev t =
     (case ev of
        Request src c \<Rightarrow>
          (case request_build src c t of
             (Inl e, t') \<Rightarrow> (Refused e, t')
           | (Inr u, t') \<Rightarrow> (Started, t'))
      | Step \<Rightarrow>
          (if status t = Building
           then ((if status (build_step t) = Building then Advanced else Completed), build_step t)
           else (NoOp, t))
      | Cancel \<Rightarrow> (if status t = Building then (Aborted, cancel t) else (NoOp, t)))"

text \<open>Modelled from the spec: a sequence of events applied in order, with the outcome
  of each.\<close>

fun run :: "event list \<Rightarrow> table \<Rightarrow> outcome list \<times> table" where
  "run [] t = ([], t)"
| "run (ev # evs) t =
     (case exec ev t of (out, t') \<Rightarrow> (case run evs t' of (outs, t'') \<Rightarrow> (out # outs, t'')))"

text \<open>Modelled from the spec: the builds in flight after a run (section 4.4): those
  started and neither completed nor aborted.\<close>

definition in_flight :: "outcome list \<Rightarrow> int" where
  "in_flight outs =
     int (count_list outs Started) - int (count_list outs Completed) - int (count_list outs Aborted)"

text \<open>Modelled from the spec: 1 while the table is building, 0 otherwise.\<close>

definition building :: "table \<Rightarrow> int" where
  "building t = (if status t = Building then 1 else 0)"

subsection \<open>The specification's example scenario\<close>

text \<open>Modelled from the spec: the example of section 8: comma-separated rows of two
  fields ending in a line feed, key column \<open>id\<close> (the first field), flag column
  \<open>flag\<close> (the second): \<open>yes\<close> is include, \<open>no\<close> is exclude, anything else skip.\<close>

fun split_on :: "char \<Rightarrow> string \<Rightarrow> string list" where
  "split_on d [] = [[]]"
| "split_on d (x # xs) =
     (if x = d then [] # split_on d xs
      else (case split_on d xs of [] \<Rightarrow> [[x]] | f # fs \<Rightarrow> (x # f) # fs))"

text \<open>Modelled from the spec: the configuration of the example: a row with other than
  two fields is malformed.\<close>

definition example_config :: build_config where
  "example_config =
     \<lparr>csv_dialect =
        (\<lambda>raw. let fs = split_on CHR '','' (takeWhile (\<lambda>x. x \<noteq> CHR 0x0A) raw)
               in if length fs = 2 then Some fs else None),
      key_columns = (\<lambda>fs. case fs of [] \<Rightarrow> None | f # _ \<Rightarrow> Some f),
      flag_rule =
        (\<lambda>fs. if fs ! 1 = ''yes'' then Include else if fs ! 1 = ''no'' then Exclude else Skip)\<rparr>"

text \<open>Modelled from the spec: a row of the example, the text and its line feed.\<close>

definition line :: "string \<Rightarrow> raw_row" where
  "line s = s @ [CHR 0x0A]"

text \<open>Modelled from the spec: the dataset of the first example scenario.\<close>

definition example_rows :: "raw_row list" where
  "example_rows = [line ''id,flag'', line ''1,yes'', line ''2,no'', line ''xx'', line ''3,yes'']"

text \<open>Modelled from the spec: the dataset of the duplicate-key scenario.\<close>

definition duplicate_rows :: "raw_row list" where
  "duplicate_rows = [line ''id,flag'', line ''1,yes'', line ''1,yes'']"

section \<open>Properties of the polling script\<close>

subsection \<open>What one run of the handler does\<close>

lemma global_binding_trace [simp]: "global_binding (p\<lparr>trace := tr\<rparr>) = global_binding p"
  by (auto simp: global_binding_def global_object_def fun_eq_iff split: option.splits)

lemma global_binding_elements [simp]:
  "elements p i = Some cl \<Longrightarrow>
     global_binding (p\<lparr>elements := (elements p)(i \<mapsto> cl')\<rparr>) = global_binding p"
  by (auto simp: global_binding_def global_object_def fun_eq_iff split: option.splits)

lemma resolve_handler_scopes:
  "x \<noteq> ''flash'' \<Longrightarrow> x \<noteq> ''xhttp'' \<Longrightarrow>
     resolve (handler_scopes flash p) x =
       (case global_binding p x of None \<Rightarrow> Inl (ReferenceError x) | Some v \<Rightarrow> Inr v)"
  by (auto simp: handler_scopes_def global_binding_def split: option.splits)

lemma setTimeout_handler:
  "setTimeout (handler_scopes flash p) ''checkIndexing'' ''interval'' p =
     (case global_binding p ''checkIndexing'' of
        None \<Rightarrow> (Throw (ReferenceError ''checkIndexing''), p)
      | Some f \<Rightarrow>
          (case global_binding p ''interval'' of
             None \<Rightarrow> (Throw (ReferenceError ''interval''), p)
           | Some d \<Rightarrow> (Normal, p\<lparr>trace := trace p @ [SetTimeout f d]\<rparr>)))"
  by (simp add: setTimeout_def resolve_handler_scopes record_call_def split: option.splits)

lemmas branch_defs =
  getElementById_def classList_remove_def classList_contains_def classList_add_def
  alert_def and_then_def record_call_def

lemma trace_onload: "trace (snd (onload b p)) = trace p @ handler_calls b p"
  unfolding handler_calls_def onload_def
  by (auto simp: branch_defs setTimeout_handler Let_def
      split: option.splits sum.splits prod.splits bool.splits completion.splits)

lemma handler_calls_eq:
  "handler_calls b p =
     GetElementById ''flash'' #
     (if b = ''YES'' then
        (case elements p ''flash'' of
           None \<Rightarrow> []
         | Some cl \<Rightarrow> [ClassListRemove ''flash'' ''hidden''])
      else
        (if b = ''NO'' then
           (case elements p ''flash'' of
              None \<Rightarrow> []
            | Some cl \<Rightarrow>
                ClassListContains ''flash'' ''hidden'' #
                (if ''hidden'' \<in> set cl then [ClassListAdd ''flash'' ''hidden''] else []))
         else [Alert ''There was an error trying to resume'']) @
        (if b = ''NO'' \<and> elements p ''flash'' = None then []
         else (case global_binding p ''checkIndexing'' of
                 None \<Rightarrow> []
               | Some f \<Rightarrow>
                   (case global_binding p ''interval'' of
                      None \<Rightarrow> []
                    | Some d \<Rightarrow> [SetTimeout f d]))))"
  unfolding handler_calls_def onload_def
  by (auto simp: branch_defs setTimeout_handler Let_def
      split: option.splits sum.splits prod.splits bool.splits completion.splits)

lemma elements_onload:
  "elements (snd (onload b p)) =
     (if b = ''YES'' then
        (case elements p ''flash'' of
           None \<Rightarrow> elements p
         | Some cl \<Rightarrow> (elements p)(''flash'' \<mapsto> removeAll ''hidden'' cl))
      else elements p)"
  unfolding onload_def
  by (auto simp: branch_defs setTimeout_handler Let_def add_token_def map_upd_triv
      split: option.splits sum.splits prod.splits bool.splits completion.splits)

lemma completion_onload:
  "fst (onload b p) =
     (if (b = ''YES'' \<or> b = ''NO'') \<and> elements p ''flash'' = None
      then Throw (TypeError ''classList'')
      else if b = ''YES'' then Return
      else (case global_binding p ''checkIndexing'' of
              None \<Rightarrow> Throw (ReferenceError ''checkIndexing'')
            | Some f \<Rightarrow>
                (case global_binding p ''interval'' of
                   None \<Rightarrow> Throw (ReferenceError ''interval'')
                 | Some d \<Rightarrow> Normal)))"
  unfolding onload_def
  by (auto simp: branch_defs setTimeout_handler Let_def
      split: option.splits sum.splits prod.splits bool.splits completion.splits)

subsection \<open>The two status values\<close>

text \<open>
  Claim C1. On a page that has the flash element, the handler takes the YES branch (it
  calls \<^verbatim>\<open>flash.classList.remove("hidden")\<close>) exactly when the response text is
  \<^verbatim>\<open>"YES"\<close>, and the NO branch (it calls \<^verbatim>\<open>flash.classList.contains("hidden")\<close>)
  exactly when the response text is \<^verbatim>\<open>"NO"\<close>; no other text reaches either
  branch. After \<^verbatim>\<open>"YES"\<close> the indicator is shown: its class list has no
  \<^verbatim>\<open>hidden\<close>.
\<close>

theorem status_branches:
  assumes "elements p ''flash'' = Some cl"
  shows "(ClassListRemove ''flash'' ''hidden'' \<in> set (handler_calls b p) \<longleftrightarrow> b = ''YES'')
       \<and> (ClassListContains ''flash'' ''hidden'' \<in> set (handler_calls b p) \<longleftrightarrow> b = ''NO'')
       \<and> (b = ''YES'' \<longrightarrow> ''hidden'' \<notin> set (classes (snd (onload b p)) ''flash''))"
  using assms
  by (simp add: handler_calls_eq elements_onload classes_def split: option.splits)

theorem status_branches_witness:
  "elements hidden_page ''flash'' = Some [''notice'', ''hidden'']
   \<and> ClassListRemove ''flash'' ''hidden'' \<in> set (handler_calls ''YES'' hidden_page)
   \<and> ClassListContains ''flash'' ''hidden'' \<notin> set (handler_calls ''YES'' hidden_page)
   \<and> ''hidden'' \<notin> set (classes (snd (onload ''YES'' hidden_page)) ''flash'')
   \<and> ClassListContains ''flash'' ''hidden'' \<in> set (handler_calls ''NO'' hidden_page)
   \<and> ClassListRemove ''flash'' ''hidden'' \<notin> set (handler_calls ''NO'' hidden_page)
   \<and> ClassListRemove ''flash'' ''hidden'' \<notin> set (handler_calls ''yes'' hidden_page)
   \<and> ClassListContains ''flash'' ''hidden'' \<notin> set (handler_calls ''NO '' hidden_page)"
proof -
  have h: "elements hidden_page ''flash'' = Some [''notice'', ''hidden'']"
    by (simp add: hidden_page_def)
  show ?thesis
    using h status_branches [OF h, of "''YES''"] status_branches [OF h, of "''NO''"]
      status_branches [OF h, of "''yes''"] status_branches [OF h, of "''NO ''"]
    by simp
qed

subsection \<open>Any other response text\<close>

text \<open>
  Claim C3. On every page, the handler raises the alert "There was an error trying to
  resume" exactly when the response text is neither \<^verbatim>\<open>"YES"\<close> nor \<^verbatim>\<open>"NO"\<close>,
  and it raises no other alert.
\<close>

theorem alert_iff_invalid:
  "(Alert ''There was an error trying to resume'' \<in> set (handler_calls b p)
      \<longleftrightarrow> b \<noteq> ''YES'' \<and> b \<noteq> ''NO'')
   \<and> ((\<exists>m. Alert m \<in> set (handler_calls b p)) \<longleftrightarrow> b \<noteq> ''YES'' \<and> b \<noteq> ''NO'')"
  by (simp add: handler_calls_eq split: option.splits)

subsection \<open>The rescheduling statement\<close>

text \<open>
  Loading the script changes nothing about what \<^verbatim>\<open>interval\<close> is bound to, and a
  script that has loaded has bound \<^verbatim>\<open>checkIndexing\<close> to its function.
\<close>

lemma load_script_interval:
  "global_binding (snd (load_script q)) ''interval'' = global_binding q ''interval''"
  by (auto simp: load_script_def global_binding_def global_object_def split: option.splits)

lemma load_script_checkIndexing:
  "fst (load_script q) = Normal \<Longrightarrow>
     global_binding (snd (load_script q)) ''checkIndexing'' = Some (Fun ''checkIndexing'')"
  by (auto simp: load_script_def global_binding_def global_object_def split: if_splits)

text \<open>
  Claim C4, as amended. The script itself binds no identifier \<^verbatim>\<open>interval\<close>: its
  constant is \<^verbatim>\<open>checkInterval\<close>, and loading it leaves the binding of
  \<^verbatim>\<open>interval\<close> on any page as it was. On a page where the script has loaded (so
  that \<^verbatim>\<open>checkIndexing\<close> is bound) and where nothing else binds \<^verbatim>\<open>interval\<close>
  (no other classic script declares it at top level, the global object has no property
  of that name, and no element has that id), the statement
  \<^verbatim>\<open>setTimeout(checkIndexing, interval)\<close> throws a ReferenceError for
  \<^verbatim>\<open>interval\<close> and leaves the page as it was; every run of the handler that reaches
  the statement (a response text other than \<^verbatim>\<open>"YES"\<close>, and for \<^verbatim>\<open>"NO"\<close> a flash
  element to read) ends with that error; and no run of the handler calls
  \<^verbatim>\<open>setTimeout\<close>.
\<close>

theorem reschedule_reference_error:
  assumes "global_binding p ''interval'' = None"
    and "global_binding p ''checkIndexing'' = Some f"
  shows "global_binding (snd (load_script q)) ''interval'' = global_binding q ''interval''
       \<and> setTimeout (handler_scopes flash p) ''checkIndexing'' ''interval'' p
           = (Throw (ReferenceError ''interval''), p)
       \<and> (b \<noteq> ''YES'' \<and> (b = ''NO'' \<longrightarrow> elements p ''flash'' \<noteq> None)
            \<longrightarrow> fst (onload b p) = Throw (ReferenceError ''interval''))
       \<and> (\<forall>g d. SetTimeout g d \<notin> set (handler_calls b p))"
  using assms
  by (auto simp: handler_calls_eq completion_onload setTimeout_handler load_script_interval
      split: option.splits)

theorem reschedule_reference_error_witness:
  "global_binding visible_page ''interval'' = None
   \<and> global_binding visible_page ''checkIndexing'' = Some (Fun ''checkIndexing'')
   \<and> global_binding (snd (load_script blank_page)) ''interval'' = None
   \<and> fst (onload ''NO'' visible_page) = Throw (ReferenceError ''interval'')
   \<and> fst (onload ''maybe'' visible_page) = Throw (ReferenceError ''interval'')
   \<and> SetTimeout (Fun ''checkIndexing'') (Num 1000) \<notin> set (handler_calls ''NO'' visible_page)"
proof -
  have h: "global_binding visible_page ''interval'' = None"
    by (simp add: visible_page_def hidden_page_def global_binding_def global_object_def)
  have f: "global_binding visible_page ''checkIndexing'' = Some (Fun ''checkIndexing'')"
    by (simp add: visible_page_def hidden_page_def global_binding_def global_object_def)
  have e: "elements visible_page ''flash'' \<noteq> None"
    by (simp add: visible_page_def hidden_page_def)
  have q: "global_binding blank_page ''interval'' = None"
    by (simp add: blank_page_def global_binding_def global_object_def)
  show ?thesis
    using h f e q reschedule_reference_error [OF h f, of blank_page Null "''NO''"]
      reschedule_reference_error [OF h f, of blank_page Null "''maybe''"]
    by simp
qed

text \<open>
  Claim C4, as stated, has no condition on the rest of the page. It fails where another
  script has bound \<^verbatim>\<open>interval\<close>, by an assignment to the global object or by a
  top-level \<^verbatim>\<open>let\<close>: there the handler, on \<^verbatim>\<open>"NO"\<close>, completes normally and
  calls \<^verbatim>\<open>setTimeout\<close> with that value as the delay.
\<close>

theorem reschedule_with_interval_bound:
  "fst (onload ''NO'' assigned_interval_page) = Normal
   \<and> handler_calls ''NO'' assigned_interval_page
       = [GetElementById ''flash'', ClassListContains ''flash'' ''hidden'',
          ClassListAdd ''flash'' ''hidden'', SetTimeout (Fun ''checkIndexing'') (Num 500)]
   \<and> fst (onload ''NO'' declared_interval_page) = Normal
   \<and> handler_calls ''NO'' declared_interval_page
       = [GetElementById ''flash'', ClassListContains ''flash'' ''hidden'',
          ClassListAdd ''flash'' ''hidden'', SetTimeout (Fun ''checkIndexing'') (Num 250)]"
  by (simp add: handler_calls_eq completion_onload assigned_interval_page_def
      declared_interval_page_def hidden_page_def global_binding_def global_object_def)

subsection \<open>A NO response and the class list\<close>

text \<open>
  Claim C5. On every page, handling the response text \<^verbatim>\<open>"NO"\<close> leaves every class
  list as it was. The handler calls \<^verbatim>\<open>classList.add("hidden")\<close> exactly when the
  flash element already has the class \<^verbatim>\<open>hidden\<close>, it never calls
  \<^verbatim>\<open>classList.remove\<close>, and the flash element has the class \<^verbatim>\<open>hidden\<close>
  afterwards exactly when it had it before.
\<close>

theorem no_response_frame:
  "elements (snd (onload ''NO'' p)) = elements p
   \<and> (ClassListAdd ''flash'' ''hidden'' \<in> set (handler_calls ''NO'' p)
        \<longleftrightarrow> ''hidden'' \<in> set (classes p ''flash''))
   \<and> (\<forall>i t. ClassListRemove i t \<notin> set (handler_calls ''NO'' p))
   \<and> (''hidden'' \<in> set (classes (snd (onload ''NO'' p)) ''flash'')
        \<longleftrightarrow> ''hidden'' \<in> set (classes p ''flash''))"
  by (simp add: handler_calls_eq elements_onload classes_def split: option.splits)

subsection \<open>A YES response\<close>

text \<open>
  Claim C6. On a page that has the flash element, handling the response text
  \<^verbatim>\<open>"YES"\<close> removes the class \<^verbatim>\<open>hidden\<close> from the flash element and returns:
  the class list afterwards is the old one without \<^verbatim>\<open>hidden\<close>, the only host calls
  are the element lookup and the removal, and neither \<^verbatim>\<open>setTimeout\<close> nor a new
  request is among them.
\<close>

theorem yes_response_shows_and_stops:
  assumes "elements p ''flash'' = Some cl"
  shows "fst (onload ''YES'' p) = Return
       \<and> classes (snd (onload ''YES'' p)) ''flash'' = removeAll ''hidden'' cl
       \<and> ''hidden'' \<notin> set (classes (snd (onload ''YES'' p)) ''flash'')
       \<and> handler_calls ''YES'' p = [GetElementById ''flash'', ClassListRemove ''flash'' ''hidden'']
       \<and> (\<forall>f d. SetTimeout f d \<notin> set (handler_calls ''YES'' p))
       \<and> XhrSend \<notin> set (handler_calls ''YES'' p)"
  using assms by (simp add: handler_calls_eq elements_onload completion_onload classes_def)

theorem yes_response_shows_and_stops_witness:
  "elements hidden_page ''flash'' = Some [''notice'', ''hidden'']
   \<and> fst (onload ''YES'' hidden_page) = Return
   \<and> classes (snd (onload ''YES'' hidden_page)) ''flash'' = [''notice'']"
proof -
  have h: "elements hidden_page ''flash'' = Some [''notice'', ''hidden'']"
    by (simp add: hidden_page_def)
  show ?thesis
    using h yes_response_shows_and_stops [OF h] by simp
qed

subsection \<open>Polling\<close>

text \<open>
  Claim C2. The claim is that every handled response schedules the next
  \<^verbatim>\<open>checkIndexing\<close> call with the interval of 1000 ms. Evaluated on the page with a
  hidden flash element on which this script has loaded and no other: handling
  \<^verbatim>\<open>"NO"\<close> ends with the ReferenceError for \<^verbatim>\<open>interval\<close> and its host calls
  hold no \<^verbatim>\<open>setTimeout\<close>; handling \<^verbatim>\<open>"YES"\<close> makes the lookup and the removal
  only; and loading the script, which leads from the blank page to that page, makes no
  host call at all.
\<close>

theorem poll_not_rescheduled:
  "fst (onload ''NO'' hidden_page) = Throw (ReferenceError ''interval'')
   \<and> handler_calls ''NO'' hidden_page
       = [GetElementById ''flash'', ClassListContains ''flash'' ''hidden'',
          ClassListAdd ''flash'' ''hidden'']
   \<and> SetTimeout (Fun ''checkIndexing'') (Num checkInterval) \<notin> set (handler_calls ''NO'' hidden_page)
   \<and> handler_calls ''YES'' hidden_page
       = [GetElementById ''flash'', ClassListRemove ''flash'' ''hidden'']
   \<and> load_script blank_page = (Normal, hidden_page)
   \<and> trace blank_page = []
   \<and> trace hidden_page = []"
  by (simp add: handler_calls_eq completion_onload hidden_page_def blank_page_def
      load_script_def global_binding_def global_object_def)

section \<open>Properties of the index engine as specified\<close>

subsection \<open>What a build computes\<close>

lemma run_build_building:
  "phase t = PBuilding c rs es \<Longrightarrow>
     run_build t = t\<lparr>phase := PReady, active := Some (fold (index_row c) rs es)\<rparr>"
proof (induction rs arbitrary: es t)
  case Nil
  then show ?case
    by (subst run_build.simps, subst run_build.simps) (simp add: build_step_def)
next
  case (Cons r rs)
  have "phase (build_step t) = PBuilding c rs (index_row c r es)"
    using Cons.prems by (simp add: build_step_def)
  from Cons.IH [OF this] show ?case
    using Cons.prems by (subst run_build.simps) (simp add: build_step_def)
qed

lemma fold_index_row: "fold (index_row c) rs es = es @ List.map_filter (entry_of c) rs"
  by (induction rs arbitrary: es) (simp_all add: index_row_def map_filter_simps split: option.splits)

lemma build_dataset:
  assumes "status t \<noteq> Building"
  shows "build (Dataset rows) c t
           = (Inr (), t\<lparr>phase := PReady,
                        active := Some (List.map_filter (entry_of c) (stream rows))\<rparr>)"
proof -
  have req: "request_build (Dataset rows) c t = (Inr (), t\<lparr>phase := PBuilding c (stream rows) []\<rparr>)"
    using assms by (simp add: request_build_def split: phase.splits)
  have "run_build (t\<lparr>phase := PBuilding c (stream rows) []\<rparr>)
          = t\<lparr>phase := PReady, active := Some (fold (index_row c) (stream rows) [])\<rparr>"
    using run_build_building [of "t\<lparr>phase := PBuilding c (stream rows) []\<rparr>" c "stream rows" "[]"]
    by simp
  then show ?thesis
    by (simp add: build_def req fold_index_row)
qed

lemma build_unreadable:
  assumes "status t \<noteq> Building"
  shows "build Unreadable c t = (Inl SourceUnreadable, t\<lparr>phase := PFailed SourceUnreadable\<rparr>)"
  using assms by (simp add: build_def request_build_def split: phase.splits)

lemma build_while_building:
  assumes "status t = Building"
  shows "build src c t = (Inl BuildInProgress, t)"
  using assms by (auto simp: build_def request_build_def split: phase.splits)

lemma stream_from_lower: "(off, raw) \<in> set (stream_from n rows) \<Longrightarrow> n \<le> off"
  by (induction rows arbitrary: n) fastforce+

lemma stream_from_distinct:
  "\<forall>r \<in> set rows. r \<noteq> [] \<Longrightarrow> distinct (map fst (stream_from n rows))"
proof (induction rows arbitrary: n)
  case Nil
  then show ?case by simp
next
  case (Cons r rows)
  have "n \<notin> fst ` set (stream_from (n + length r) rows)"
  proof
    assume "n \<in> fst ` set (stream_from (n + length r) rows)"
    then obtain raw where "(n, raw) \<in> set (stream_from (n + length r) rows)" by auto
    from stream_from_lower [OF this] have "n + length r \<le> n" .
    moreover have "r \<noteq> []" using Cons.prems by simp
    ultimately show False by simp
  qed
  moreover have "distinct (map fst (stream_from (n + length r) rows))"
    using Cons by simp
  ultimately show ?case by simp
qed

lemma entry_of_Some:
  "entry_of c r = Some e \<longleftrightarrow>
     flag_of c (snd r) = Include \<and> key_of c (snd r) = Some (fst e) \<and> snd e = fst r"
  by (cases e) (auto simp: entry_of_def split: option.splits)

lemma flag_include_key: "flag_of c raw = Include \<Longrightarrow> \<exists>k. key_of c raw = Some k"
  by (auto simp: flag_of_def key_of_def split: option.splits)

lemma entry_of_None: "entry_of c r = None \<longleftrightarrow> flag_of c (snd r) \<noteq> Include"
  using flag_include_key [of c "snd r"] by (auto simp: entry_of_def split: option.splits)

lemma entries_off_absent:
  "off \<notin> fst ` set xs \<Longrightarrow> filter (\<lambda>e. snd e = off) (List.map_filter (entry_of c) xs) = []"
proof (induction xs)
  case Nil
  then show ?case by simp
next
  case (Cons x xs)
  then have ne: "fst x \<noteq> off" and ih: "filter (\<lambda>e. snd e = off) (List.map_filter (entry_of c) xs) = []"
    by auto
  show ?case
  proof (cases "entry_of c x")
    case None
    with ih show ?thesis by simp
  next
    case (Some e)
    then have "snd e = fst x" by (simp add: entry_of_Some)
    with Some ih ne show ?thesis by simp
  qed
qed

lemma entries_at_offset:
  assumes "distinct (map fst xs)" and "(off, raw) \<in> set xs"
  shows "filter (\<lambda>e. snd e = off) (List.map_filter (entry_of c) xs)
           = (case entry_of c (off, raw) of None \<Rightarrow> [] | Some e \<Rightarrow> [e])"
  using assms
proof (induction xs)
  case Nil
  then show ?case by simp
next
  case (Cons x xs)
  show ?case
  proof (cases "x = (off, raw)")
    case True
    then have "off \<notin> fst ` set xs" using Cons.prems(1) by simp
    from entries_off_absent [OF this, of c]
    have rest: "filter (\<lambda>e. snd e = off) (List.map_filter (entry_of c) xs) = []" .
    show ?thesis
    proof (cases "entry_of c x")
      case None
      with rest True show ?thesis by simp
    next
      case (Some e)
      then have "snd e = off" using True by (simp add: entry_of_Some)
      with Some rest True show ?thesis by simp
    qed
  next
    case False
    then have in_xs: "(off, raw) \<in> set xs" using Cons.prems(2) by simp
    then have "off \<in> fst ` set xs" by force
    then have ne: "fst x \<noteq> off" using Cons.prems(1) by auto
    have ih: "filter (\<lambda>e. snd e = off) (List.map_filter (entry_of c) xs)
                = (case entry_of c (off, raw) of None \<Rightarrow> [] | Some e \<Rightarrow> [e])"
      using Cons.IH in_xs Cons.prems(1) by simp
    show ?thesis
    proof (cases "entry_of c x")
      case None
      with ih show ?thesis by simp
    next
      case (Some e)
      then have "snd e = fst x" by (simp add: entry_of_Some)
      with Some ih ne show ?thesis by simp
    qed
  qed
qed

lemma entries_sources:
  "e \<in> set (List.map_filter (entry_of c) xs) \<Longrightarrow>
     \<exists>raw. (snd e, raw) \<in> set xs \<and> flag_of c raw = Include \<and> key_of c raw = Some (fst e)"
proof (induction xs)
  case Nil
  then show ?case by simp
next
  case (Cons x xs)
  show ?case
  proof (cases "entry_of c x")
    case None
    with Cons show ?thesis by auto
  next
    case (Some e')
    show ?thesis
    proof (cases "e = e'")
      case True
      with Some have "flag_of c (snd x) = Include \<and> key_of c (snd x) = Some (fst e) \<and> snd e = fst x"
        by (simp add: entry_of_Some)
      then have "(snd e, snd x) \<in> set (x # xs) \<and> flag_of c (snd x) = Include
                   \<and> key_of c (snd x) = Some (fst e)"
        by simp
      then show ?thesis by blast
    next
      case False
      with Some Cons.prems have "e \<in> set (List.map_filter (entry_of c) xs)" by simp
      from Cons.IH [OF this] show ?thesis by auto
    qed
  qed
qed

lemma length_stream_from: "length (stream_from n rows) = length rows"
  by (induction rows arbitrary: n) simp_all

lemma map_snd_stream_from: "map snd (stream_from n rows) = rows"
  by (induction rows arbitrary: n) simp_all

lemma snd_stream_nth: "j < length rows \<Longrightarrow> snd (stream rows ! j) = rows ! j"
proof -
  assume j: "j < length rows"
  then have "snd (stream rows ! j) = map snd (stream rows) ! j"
    by (simp add: stream_def length_stream_from)
  then show ?thesis by (simp add: stream_def map_snd_stream_from)
qed

lemma resolve_key_append:
  "resolve_key k (es1 @ es2) found = resolve_key k es2 (resolve_key k es1 found)"
  by (induction es1 arbitrary: found) simp_all

lemma resolve_key_absent:
  "\<forall>e \<in> set es. fst e \<noteq> k \<Longrightarrow> resolve_key k es found = found"
  by (induction es arbitrary: found) simp_all

lemma map_filter_append:
  "List.map_filter f (xs @ ys) = List.map_filter f xs @ List.map_filter f ys"
  by (simp add: List.map_filter_def)

lemma in_set_drop_nth:
  "x \<in> set (drop n xs) \<Longrightarrow> \<exists>j. n \<le> j \<and> j < length xs \<and> xs ! j = x"
proof -
  assume "x \<in> set (drop n xs)"
  then obtain m where m: "m < length (drop n xs)" "drop n xs ! m = x"
    by (auto simp: in_set_conv_nth)
  then have "n + m < length xs" "xs ! (n + m) = x" by auto
  then show ?thesis by (intro exI [of _ "n + m"]) simp
qed

lemma in_flight_Cons:
  "in_flight (out # outs) =
     (if out = Started then 1 else if out = Completed \<or> out = Aborted then - 1 else 0)
     + in_flight outs"
  by (auto simp: in_flight_def)

lemma exec_in_flight:
  assumes "exec ev t = (out, t1)"
  shows "(if out = Started then 1 else if out = Completed \<or> out = Aborted then - 1 else 0)
           = building t1 - building t"
proof (cases ev)
  case (Request src c)
  with assms show ?thesis
    by (cases src; cases "phase t") (auto simp: exec_def request_build_def building_def)
next
  case Step
  with assms show ?thesis by (auto simp: exec_def building_def split: if_splits)
next
  case Cancel
  with assms show ?thesis
    by (auto simp: exec_def building_def cancel_def split: if_splits phase.splits)
qed

lemma run_in_flight:
  "in_flight (fst (run evs t)) = building (snd (run evs t)) - building t"
proof (induction evs arbitrary: t)
  case Nil
  then show ?case by (simp add: in_flight_def)
next
  case (Cons ev evs)
  obtain out t1 where e: "exec ev t = (out, t1)" by (cases "exec ev t")
  obtain outs t2 where r: "run evs t1 = (outs, t2)" by (cases "run evs t1")
  have "in_flight (out # outs) = (building t1 - building t) + in_flight outs"
    unfolding in_flight_Cons using exec_in_flight [OF e] by simp
  moreover have "in_flight outs = building t2 - building t1"
    using Cons.IH [of t1] r by simp
  ultimately show ?case by (simp add: e r)
qed

subsection \<open>At most one build\<close>

text \<open>
  Claim C7. A build request on a table that is building is rejected with
  BuildInProgress and leaves the table, with the running build's remaining rows and
  index under construction, exactly as it was; so does the \<open>build\<close> operation. Of
  two requests that reach a table that is not building, the first (on a readable
  dataset) starts a build and the second is refused with BuildInProgress, leaving the
  table as the first made it. Along every sequence of requests, build steps and
  cancellations from a table that is not building, the number of builds in flight is 1
  while the table is building and 0 otherwise: never more than one.
\<close>

theorem at_most_one_build:
  "(status t = Building \<longrightarrow>
      request_build src c t = (Inl BuildInProgress, t)
      \<and> build src c t = (Inl BuildInProgress, t)
      \<and> exec (Request src c) t = (Refused BuildInProgress, t))
   \<and> (status t \<noteq> Building \<longrightarrow>
        fst (exec (Request (Dataset rows) c) t) = Started
        \<and> exec (Request src' c') (snd (exec (Request (Dataset rows) c) t))
            = (Refused BuildInProgress, snd (exec (Request (Dataset rows) c) t))
        \<and> in_flight (fst (run evs t)) = (if status (snd (run evs t)) = Building then 1 else 0))"
proof -
  have a: "request_build src c t = (Inl BuildInProgress, t)" if "status t = Building" for src c t
    using that by (auto simp: request_build_def split: phase.splits)
  have b: "status (snd (exec (Request (Dataset rows) c) t)) = Building
           \<and> fst (exec (Request (Dataset rows) c) t) = Started" if "status t \<noteq> Building"
    using that by (simp add: exec_def request_build_def split: phase.splits)
  have c: "in_flight (fst (run evs t)) = (if status (snd (run evs t)) = Building then 1 else 0)"
    if "status t \<noteq> Building"
    using that run_in_flight [of evs t] by (simp add: building_def)
  show ?thesis
    using a b c build_while_building [of t src c] by (simp add: exec_def)
qed

theorem at_most_one_build_witness:
  "status new_table \<noteq> Building
   \<and> status (snd (exec (Request (Dataset example_rows) example_config) new_table)) = Building
   \<and> fst (exec (Request (Dataset example_rows) example_config) new_table) = Started
   \<and> fst (exec (Request (Dataset duplicate_rows) example_config)
            (snd (exec (Request (Dataset example_rows) example_config) new_table)))
       = Refused BuildInProgress
   \<and> fst (build (Dataset duplicate_rows) example_config
            (snd (exec (Request (Dataset example_rows) example_config) new_table)))
       = Inl BuildInProgress
   \<and> in_flight (fst (run [Request (Dataset example_rows) example_config,
                          Request (Dataset duplicate_rows) example_config, Step, Step]
                     new_table)) = 1"
proof -
  let ?t = "snd (exec (Request (Dataset example_rows) example_config) new_table)"
  have h1: "status new_table \<noteq> Building"
    by (simp add: new_table_def)
  have h2: "status ?t = Building"
    by (simp add: exec_def request_build_def new_table_def)
  have h3: "status (snd (run [Request (Dataset example_rows) example_config,
                          Request (Dataset duplicate_rows) example_config, Step, Step]
                     new_table)) = Building"
    by (simp add: exec_def request_build_def new_table_def build_step_def stream_def
        example_rows_def)
  show ?thesis
    using h1 h2 h3
      at_most_one_build [of new_table Unreadable example_config example_rows
        "Dataset duplicate_rows" example_config
        "[Request (Dataset example_rows) example_config,
          Request (Dataset duplicate_rows) example_config, Step, Step]"]
      at_most_one_build [of ?t "Dataset duplicate_rows" example_config]
    by simp
qed

subsection \<open>Include rows and index entries\<close>

text \<open>
  Claim C8. Let every physical row hold at least one byte (so that no two rows start at
  the same offset), and let a build of the dataset be accepted. The build ends ready,
  and in its index: a row flagged \<open>include\<close> has exactly one entry at its offset, and
  that entry maps the row's key to the offset; a row flagged \<open>skip\<close> or \<open>exclude\<close>
  has no entry at its offset; and every entry is the entry of some \<open>include\<close> row of
  the dataset.
\<close>

theorem no_leak:
  assumes "status t \<noteq> Building"
    and "\<forall>r \<in> set rows. r \<noteq> []"
    and "(off, raw) \<in> set (stream rows)"
  shows "status (snd (build (Dataset rows) c t)) = Ready
       \<and> (\<exists>es. active (snd (build (Dataset rows) c t)) = Some es
            \<and> (flag_of c raw = Include \<longrightarrow>
                 (\<exists>k. key_of c raw = Some k \<and> filter (\<lambda>e. snd e = off) es = [(k, off)]))
            \<and> (flag_of c raw \<noteq> Include \<longrightarrow> filter (\<lambda>e. snd e = off) es = [])
            \<and> (\<forall>e \<in> set es. \<exists>raw'. (snd e, raw') \<in> set (stream rows)
                   \<and> flag_of c raw' = Include \<and> key_of c raw' = Some (fst e)))"
proof -
  let ?es = "List.map_filter (entry_of c) (stream rows)"
  have b: "build (Dataset rows) c t = (Inr (), t\<lparr>phase := PReady, active := Some ?es\<rparr>)"
    by (rule build_dataset [OF assms(1)])
  have d: "distinct (map fst (stream rows))"
    unfolding stream_def by (rule stream_from_distinct [OF assms(2)])
  have at: "filter (\<lambda>e. snd e = off) ?es = (case entry_of c (off, raw) of None \<Rightarrow> [] | Some e \<Rightarrow> [e])"
    by (rule entries_at_offset [OF d assms(3)])
  have inc: "flag_of c raw = Include \<longrightarrow>
      (\<exists>k. key_of c raw = Some k \<and> filter (\<lambda>e. snd e = off) ?es = [(k, off)])"
  proof
    assume i: "flag_of c raw = Include"
    then obtain k where k: "key_of c raw = Some k" using flag_include_key by blast
    with i have "entry_of c (off, raw) = Some (k, off)" by (simp add: entry_of_Some)
    with k show "\<exists>k. key_of c raw = Some k \<and> filter (\<lambda>e. snd e = off) ?es = [(k, off)]"
      by (simp add: at)
  qed
  have exc: "flag_of c raw \<noteq> Include \<longrightarrow> filter (\<lambda>e. snd e = off) ?es = []"
  proof
    assume "flag_of c raw \<noteq> Include"
    then have "entry_of c (off, raw) = None" by (simp add: entry_of_None)
    then show "filter (\<lambda>e. snd e = off) ?es = []" by (simp add: at)
  qed
  have src: "\<forall>e \<in> set ?es. \<exists>raw'. (snd e, raw') \<in> set (stream rows)
                   \<and> flag_of c raw' = Include \<and> key_of c raw' = Some (fst e)"
    using entries_sources by blast
  show ?thesis
    using inc exc src by (simp add: b)
qed

theorem no_leak_witness:
  "status new_table \<noteq> Building
   \<and> [] \<notin> set example_rows
   \<and> (8, line ''1,yes'') \<in> set (stream example_rows)
   \<and> (14, line ''2,no'') \<in> set (stream example_rows)
   \<and> flag_of example_config (line ''1,yes'') = Include
   \<and> flag_of example_config (line ''2,no'') = Exclude
   \<and> status (snd (build (Dataset example_rows) example_config new_table)) = Ready
   \<and> (\<exists>es. active (snd (build (Dataset example_rows) example_config new_table)) = Some es
          \<and> filter (\<lambda>e. snd e = 8) es = [(''1'', 8)]
          \<and> filter (\<lambda>e. snd e = 14) es = [])"
proof -
  have h1: "status new_table \<noteq> Building"
    by (simp add: new_table_def)
  have h2: "\<forall>r \<in> set example_rows. r \<noteq> []"
    by (simp add: example_rows_def line_def)
  have h3: "(8, line ''1,yes'') \<in> set (stream example_rows)"
    by (simp add: stream_def example_rows_def line_def)
  have h4: "(14, line ''2,no'') \<in> set (stream example_rows)"
    by (simp add: stream_def example_rows_def line_def)
  have f1: "flag_of example_config (line ''1,yes'') = Include"
    by (simp add: flag_of_def example_config_def line_def)
  have k1: "key_of example_config (line ''1,yes'') = Some ''1''"
    by (simp add: key_of_def example_config_def line_def)
  have f2: "flag_of example_config (line ''2,no'') = Exclude"
    by (simp add: flag_of_def example_config_def line_def)
  show ?thesis
    using h1 h2 h3 h4 f1 k1 f2
      no_leak [OF h1 h2 h3, of example_config] no_leak [OF h1 h2 h4, of example_config]
    by auto
qed

subsection \<open>Duplicate keys\<close>

text \<open>
  Claim C9. Let a build of the dataset be accepted, and let row \<open>i\<close> be an
  \<open>include\<close> row with key \<open>k\<close> such that no later row is an \<open>include\<close> row with
  key \<open>k\<close>: the last such row in file order, however many came before it. Then
  looking \<open>k\<close> up in the completed index gives the offset of row \<open>i\<close>.
\<close>

theorem last_write_wins:
  assumes "status t \<noteq> Building"
    and "i < length rows"
    and "stream rows ! i = (off, raw)"
    and "flag_of c raw = Include"
    and "key_of c raw = Some k"
    and "\<forall>j. i < j \<and> j < length rows \<longrightarrow>
           \<not> (flag_of c (rows ! j) = Include \<and> key_of c (rows ! j) = Some k)"
  shows "lookup k (snd (build (Dataset rows) c t)) = Inr (Some off)"
proof -
  let ?xs = "stream rows"
  have len: "length ?xs = length rows" by (simp add: stream_def length_stream_from)
  have split: "?xs = take i ?xs @ (off, raw) # drop (Suc i) ?xs"
    using assms(2,3) len by (metis id_take_nth_drop)
  have here: "entry_of c (off, raw) = Some (k, off)"
    using assms(4,5) by (simp add: entry_of_Some)
  have later: "\<forall>e \<in> set (List.map_filter (entry_of c) (drop (Suc i) ?xs)). fst e \<noteq> k"
  proof
    fix e assume "e \<in> set (List.map_filter (entry_of c) (drop (Suc i) ?xs))"
    from entries_sources [OF this] obtain raw' where
      r: "(snd e, raw') \<in> set (drop (Suc i) ?xs)" "flag_of c raw' = Include"
         "key_of c raw' = Some (fst e)"
      by blast
    from in_set_drop_nth [OF r(1)] obtain j where
      j: "Suc i \<le> j" "j < length ?xs" "?xs ! j = (snd e, raw')"
      by blast
    then have "rows ! j = raw'" using snd_stream_nth [of j rows] len by simp
    with assms(6) j len r show "fst e \<noteq> k" by auto
  qed
  have "List.map_filter (entry_of c) ?xs
          = List.map_filter (entry_of c) (take i ?xs) @ (k, off) #
            List.map_filter (entry_of c) (drop (Suc i) ?xs)"
    by (subst split) (simp add: map_filter_append here)
  then have "resolve_key k (List.map_filter (entry_of c) ?xs) None = Some off"
    by (simp add: resolve_key_append resolve_key_absent [OF later])
  then show ?thesis
    by (simp add: build_dataset [OF assms(1)] lookup_def)
qed

theorem last_write_wins_witness:
  "status new_table \<noteq> Building
   \<and> stream (duplicate_rows @ [line ''2,yes'']) ! 1 = (8, line ''1,yes'')
   \<and> stream (duplicate_rows @ [line ''2,yes'']) ! 2 = (14, line ''1,yes'')
   \<and> flag_of example_config (line ''1,yes'') = Include
   \<and> key_of example_config (line ''1,yes'') = Some ''1''
   \<and> lookup ''1'' (snd (build (Dataset (duplicate_rows @ [line ''2,yes''])) example_config new_table))
       = Inr (Some 14)"
proof -
  let ?rows = "duplicate_rows @ [line ''2,yes'']"
  have h1: "status new_table \<noteq> Building"
    by (simp add: new_table_def)
  have h2: "2 < length ?rows"
    by (simp add: duplicate_rows_def)
  have h3: "stream ?rows ! 2 = (14, line ''1,yes'')"
    by (simp add: stream_def duplicate_rows_def line_def)
  have h3': "stream ?rows ! 1 = (8, line ''1,yes'')"
    by (simp add: stream_def duplicate_rows_def line_def)
  have h4: "flag_of example_config (line ''1,yes'') = Include"
    by (simp add: flag_of_def example_config_def line_def)
  have h5: "key_of example_config (line ''1,yes'') = Some ''1''"
    by (simp add: key_of_def example_config_def line_def)
  have h6: "\<forall>j. 2 < j \<and> j < length ?rows \<longrightarrow>
              \<not> (flag_of example_config (?rows ! j) = Include
                  \<and> key_of example_config (?rows ! j) = Some ''1'')"
  proof (intro allI impI)
    fix j assume "2 < j \<and> j < length ?rows"
    then have "j = 3" by (simp add: duplicate_rows_def)
    then show "\<not> (flag_of example_config (?rows ! j) = Include
                  \<and> key_of example_config (?rows ! j) = Some ''1'')"
      by (simp add: duplicate_rows_def key_of_def example_config_def line_def)
  qed
  show ?thesis
    using h1 h3 h3' h4 h5 last_write_wins [OF h1 h2 h3 h4 h5 h6] by simp
qed

subsection \<open>Rebuilding\<close>

text \<open>
  Claim C10. Building twice from the same source and configuration gives the same
  active index, the same state and the same answer to every lookup as building once;
  and the index built from a dataset does not depend on the table the build started
  from.
\<close>

theorem rebuild_idempotent:
  assumes "status t \<noteq> Building" and "status t' \<noteq> Building"
  shows "active (snd (build src c (snd (build src c t)))) = active (snd (build src c t))
       \<and> status (snd (build src c (snd (build src c t)))) = status (snd (build src c t))
       \<and> (\<forall>k. lookup k (snd (build src c (snd (build src c t)))) = lookup k (snd (build src c t)))
       \<and> active (snd (build (Dataset rows) c t')) = active (snd (build (Dataset rows) c t))"
proof (cases src)
  case Unreadable
  have "status (t\<lparr>phase := PFailed SourceUnreadable\<rparr>) \<noteq> Building" by simp
  from build_unreadable [OF this] show ?thesis
    by (simp add: Unreadable build_unreadable [OF assms(1)] build_dataset [OF assms(1)]
        build_dataset [OF assms(2)] lookup_def)
next
  case (Dataset rs)
  let ?es = "List.map_filter (entry_of c) (stream rs)"
  have "status (t\<lparr>phase := PReady, active := Some ?es\<rparr>) \<noteq> Building" by simp
  from build_dataset [OF this] show ?thesis
    by (simp add: Dataset build_dataset [OF assms(1)] build_dataset [OF assms(2)] lookup_def)
qed

theorem rebuild_idempotent_witness:
  "status new_table \<noteq> Building
   \<and> status (new_table\<lparr>phase := PFailed Cancelled, active := Some [(''9'', 99)]\<rparr>) \<noteq> Building
   \<and> active (snd (build (Dataset example_rows) example_config
                (snd (build (Dataset example_rows) example_config new_table))))
       = active (snd (build (Dataset example_rows) example_config new_table))
   \<and> lookup ''3'' (snd (build (Dataset example_rows) example_config
                (snd (build (Dataset example_rows) example_config new_table))))
       = lookup ''3'' (snd (build (Dataset example_rows) example_config new_table))
   \<and> active (snd (build (Dataset example_rows) example_config
                (new_table\<lparr>phase := PFailed Cancelled, active := Some [(''9'', 99)]\<rparr>)))
       = active (snd (build (Dataset example_rows) example_config new_table))"
proof -
  have h1: "status new_table \<noteq> Building"
    by (simp add: new_table_def)
  have h2: "status (new_table\<lparr>phase := PFailed Cancelled, active := Some [(''9'', 99)]\<rparr>) \<noteq> Building"
    by simp
  show ?thesis
    using h1 h2 rebuild_idempotent [OF h1 h2, of "Dataset example_rows" example_config example_rows]
    by simp
qed

end
